theory Spec2Isabelle
  imports Main
begin

section \<open>Strings and formatting\<close>

text \<open>
  A Python \<open>str\<close> is a sequence of Unicode code points and \<open>len\<close> counts code points,
  so a string is modelled as a list of code points. \<open>u\<close> turns an ASCII literal into
  such a list; the ellipsis U+2026 is the code point 8230.
\<close>

type_synonym ustr = "nat list"

definition u :: "string \<Rightarrow> ustr" where
  "u s = map of_char s"

definition ellipsis :: ustr where
  "ellipsis = [8230]"

text \<open>\<open>str(n)\<close> for a non-negative integer, and the format \<open>{n:02d}\<close>.\<close>

fun str_nat :: "nat \<Rightarrow> ustr" where
  "str_nat n = (if n < 10 then [48 + n] else str_nat (n div 10) @ [48 + n mod 10])"

declare str_nat.simps [simp del]

definition pad2 :: "nat \<Rightarrow> ustr" where
  "pad2 n = (if n < 10 then 48 # str_nat n else str_nat n)"

text \<open>\<open>sep.join(xs)\<close>.\<close>

fun join :: "ustr \<Rightarrow> ustr list \<Rightarrow> ustr" where
  "join sep [] = []"
| "join sep [x] = x"
| "join sep (x # y # ys) = x @ sep @ join sep (y # ys)"

text \<open>
  The characters Python's \<open>str.split()\<close> and \<open>str.strip()\<close> treat as whitespace
  (\<open>str.isspace\<close>).
\<close>

definition is_space :: "nat \<Rightarrow> bool" where
  "is_space c = (c \<in> set [9, 10, 11, 12, 13, 28, 29, 30, 31, 32, 133, 160, 5760,
     8192, 8193, 8194, 8195, 8196, 8197, 8198, 8199, 8200, 8201, 8202,
     8232, 8233, 8239, 8287, 12288])"

definition all_space :: "ustr \<Rightarrow> bool" where
  \<comment> \<open>\<open>s.strip() == ''\<close>\<close>
  "all_space s = list_all is_space s"

definition lstrip :: "ustr \<Rightarrow> ustr" where
  "lstrip s = dropWhile is_space s"

definition strip :: "ustr \<Rightarrow> ustr" where
  "strip s = rev (dropWhile is_space (rev (dropWhile is_space s)))"

text \<open>\<open>text.split()\<close>: the maximal runs of non-whitespace characters.\<close>

fun split_acc :: "ustr \<Rightarrow> ustr \<Rightarrow> ustr list" where
  "split_acc cur [] = (if cur = [] then [] else [cur])"
| "split_acc cur (c # cs) =
     (if is_space c then (if cur = [] then split_acc [] cs else cur # split_acc [] cs)
      else split_acc (cur @ [c]) cs)"

definition split_ws :: "ustr \<Rightarrow> ustr list" where
  "split_ws text = split_acc [] text"

text \<open>\<open>s.replace(old, new)\<close> for a one-character \<open>old\<close>.\<close>

definition replace :: "nat \<Rightarrow> ustr \<Rightarrow> ustr \<Rightarrow> ustr" where
  "replace old new s = concat (map (\<lambda>c. if c = old then new else [c]) s)"

section \<open>textwrap.shorten\<close>

text \<open>
  \<open>textwrap.shorten(text, width, placeholder)\<close> of the Python standard library is
  \<open>TextWrapper(width, max_lines=1, placeholder).fill(' '.join(text.strip().split()))\<close>.
  The collapsed text holds single spaces as its only whitespace, so the wrapper's tab
  expansion and whitespace replacement leave it as it is. The wrapper cuts the text into
  chunks, here the maximal runs of spaces and of non-spaces; the library also allows a
  break after a hyphen inside a word, which is not modelled, so the model is that of the
  library on text without hyphens. The library raises \<open>ValueError\<close> when
  \<open>len(placeholder.lstrip()) > width\<close>; both call sites pass constants for which it
  does not (\<open>placeholder_fits\<close>).
\<close>

definition collapse :: "ustr \<Rightarrow> ustr" where
  "collapse text = join [32] (split_ws (strip text))"

fun chunk_acc :: "ustr \<Rightarrow> ustr \<Rightarrow> ustr list" where
  "chunk_acc cur [] = (if cur = [] then [] else [cur])"
| "chunk_acc cur (c # cs) =
     (if cur = [] \<or> ((last cur = 32) = (c = 32)) then chunk_acc (cur @ [c]) cs
      else cur # chunk_acc [c] cs)"

definition split_chunks :: "ustr \<Rightarrow> ustr list" where
  "split_chunks text = chunk_acc [] text"

text \<open>
  The inner loop of \<open>_wrap_chunks\<close>: chunks are moved to the current line as long as
  they fit in the width.
\<close>

fun take_fitting :: "nat \<Rightarrow> ustr list \<Rightarrow> ustr list \<Rightarrow> ustr list \<times> ustr list" where
  "take_fitting width cur_line [] = (cur_line, [])"
| "take_fitting width cur_line (c # cs) =
     (if length (concat cur_line) + length c \<le> width
      then take_fitting width (cur_line @ [c]) cs
      else (cur_line, c # cs))"

text \<open>
  \<open>_handle_long_word\<close> with \<open>break_long_words\<close>: a chunk longer than the width is cut
  so that its head fills the current line.
\<close>

definition handle_long_word :: "nat \<Rightarrow> ustr list \<times> ustr list \<Rightarrow> ustr list \<times> ustr list" where
  "handle_long_word width st =
     (case st of
        (cur_line, []) \<Rightarrow> (cur_line, [])
      | (cur_line, c # cs) \<Rightarrow>
          if width < length c
          then (let space_left = (if width < 1 then 1 else width - length (concat cur_line))
                in (cur_line @ [take space_left c], drop space_left c # cs))
          else (cur_line, c # cs))"

text \<open>
  The loop that makes room for the placeholder: chunks are dropped from the end of the
  line (given here in reverse) until the last one is a word and the placeholder fits;
  with no chunk left the line is the placeholder without its leading whitespace.
\<close>

fun add_placeholder :: "nat \<Rightarrow> ustr \<Rightarrow> ustr list \<Rightarrow> ustr" where
  "add_placeholder width placeholder [] = lstrip placeholder"
| "add_placeholder width placeholder (c # rcs) =
     (if \<not> all_space c \<and> length (concat (c # rcs)) + length placeholder \<le> width
      then concat (rev (c # rcs)) @ placeholder
      else add_placeholder width placeholder rcs)"

text \<open>
  One pass of the outer loop of \<open>_wrap_chunks\<close> up to the point where the current
  line is complete: the chunks that fit, the head of a chunk that is too long for any
  line, and a trailing whitespace chunk dropped. The result is the current line and the
  chunks that remain.
\<close>

definition fill_line :: "ustr list \<Rightarrow> nat \<Rightarrow> ustr list \<times> ustr list" where
  "fill_line chunks width =
     (case handle_long_word width (take_fitting width [] chunks) of
        (cur_line, rest) \<Rightarrow>
          (if cur_line \<noteq> [] \<and> all_space (last cur_line) then butlast cur_line else cur_line,
           rest))"

text \<open>
  \<open>_wrap_chunks\<close> with \<open>max_lines = 1\<close>: the line is kept when no chunk (or one
  whitespace chunk) remains, and is cut to make room for the placeholder otherwise. A pass
  that ends with an empty current line yields no line; with chunks left the library would
  start another pass, which happens only for text that starts with whitespace, and
  collapsed text does not (\<open>fill_line_collapse\<close>).
\<close>

definition wrap_one_line :: "ustr list \<Rightarrow> nat \<Rightarrow> ustr \<Rightarrow> ustr" where
  "wrap_one_line chunks width placeholder =
     (case fill_line chunks width of
        (cur_line, rest) \<Rightarrow>
          if cur_line = [] then []
          else if (rest = [] \<or> (length rest = 1 \<and> all_space (hd rest)))
                  \<and> length (concat cur_line) \<le> width
          then concat cur_line
          else add_placeholder width placeholder (rev cur_line))"

definition shorten :: "ustr \<Rightarrow> nat \<Rightarrow> ustr \<Rightarrow> ustr" where
  "shorten text width placeholder =
     wrap_one_line (split_chunks (collapse text)) width placeholder"

definition placeholder_fits :: "nat \<Rightarrow> ustr \<Rightarrow> bool" where
  "placeholder_fits width placeholder = (0 < width \<and> length (lstrip placeholder) \<le> width)"

section \<open>Configuration\<close>

definition GITHUB_PAGES_URL :: ustr where
  "GITHUB_PAGES_URL = u ''https://connie817954.github.io/nakedcap-podcast''"

definition PODCAST_TITLE :: ustr where
  "PODCAST_TITLE = u ''Naked Capitalism Daily Links''"

definition PODCAST_DESCRIPTION :: ustr where
  "PODCAST_DESCRIPTION = u ''Daily Links from nakedcapitalism.com, converted to audio.''"

definition PODCAST_AUTHOR :: ustr where
  "PODCAST_AUTHOR = u ''Naked Capitalism (TTS)''"

definition PODCAST_EMAIL :: ustr where
  "PODCAST_EMAIL = u ''you@example.com''"

definition MIN_TEXT_LENGTH :: nat where
  "MIN_TEXT_LENGTH = 200"

definition SILENCE_BETWEEN_CHAPTERS_MS :: nat where
  "SILENCE_BETWEEN_CHAPTERS_MS = 2000"

definition END_MARKER :: ustr where
  \<comment> \<open>the placeholder \<open>" [...end of article...]"\<close>, its two ellipses being U+2026\<close>
  "END_MARKER = u '' ['' @ ellipsis @ u ''end of article'' @ ellipsis @ u '']''"

section \<open>Data model and environment\<close>

record article =
  a_url :: ustr
  a_title :: ustr
  a_blurb :: ustr

record post =
  p_title :: ustr
  p_url :: ustr
  p_articles :: "article list"

record episode =
  e_guid :: ustr
  e_title :: ustr
  e_description :: ustr
  e_audio_url :: ustr
  e_file_size :: nat
  e_duration :: ustr
  e_pub_date :: ustr

text \<open>
  Audio is a list of samples, one per millisecond, so that \<open>len(segment)\<close> is its
  length; a file is a list of bytes. The directories the pipeline touches are the public
  \<open>docs\<close> and \<open>docs/audio\<close> and the transient \<open>tmp_chapters\<close>; a path is a directory
  and a file name.
\<close>

type_synonym segment = "int list"
type_synonym bytes = "nat list"

datatype dir = DocsDir | AudioDir | TmpDir

type_synonym path = "dir \<times> ustr"

datatype error =
  ScrapeError | JSONDecodeError | FileNotFoundError | CouldntDecodeError | CouldntEncodeError
  | ValueError

datatype scrape_result = ScrapeRaised | NoLinksPost | LinksPost post

datatype tts_outcome = Synthesized bytes | SynthesisFailed "bytes option"

text \<open>
  What the outside world answers during one run: the scraper's result
  (\<open>fetch_links_post\<close>, whose HTML parsing is not modelled), the clock, the HTTP
  session and the text extractor (\<open>None\<close> when they raise or find nothing), the speech
  service (which may fail and leave a partial file), the audio codec, and
  \<open>format_datetime(datetime.fromisoformat(s))\<close> (\<open>None\<close> when the date does not parse).
\<close>

record env =
  fetch_links_post :: scrape_result
  utc_today :: ustr
  utc_now_iso :: ustr
  http_get :: "ustr \<Rightarrow> ustr option"
  extract_text :: "ustr \<Rightarrow> ustr option"
  synth :: "ustr \<Rightarrow> tts_outcome"
  decode_mp3 :: "bytes \<Rightarrow> segment option"
  encode_mp3 :: "segment \<Rightarrow> ustr \<Rightarrow> bytes option"
  format_pub_date :: "ustr \<Rightarrow> ustr option"

text \<open>
  The state file holds the JSON text of the feed state. The encoding is not modelled:
  \<open>Doc eps\<close> is the complete text that \<open>json.dumps\<close> writes for the episode list
  \<open>eps\<close>, and \<open>Incomplete\<close> is a file that does not hold a complete text (empty or
  partly written), which \<open>json.loads\<close> rejects.
\<close>

datatype state_doc = Incomplete | Doc "episode list"

text \<open>
  The file system and the record of the calls made to the speech service. A file that
  does not exist is \<open>None\<close>.
\<close>

record world =
  state_file :: "state_doc option"
  rss_file :: "ustr option"
  dirs :: "dir set"
  fs :: "path \<rightharpoonup> bytes"
  tts_calls :: "(ustr \<times> path) list"

definition mkdir :: "dir \<Rightarrow> world \<Rightarrow> world" where
  \<comment> \<open>\<open>mkdir(exist_ok=True)\<close>; \<open>parents=True\<close> for \<open>docs/audio\<close> creates \<open>docs\<close> too\<close>
  "mkdir d w = w\<lparr>dirs := (if d = AudioDir then {DocsDir, AudioDir} else {d}) \<union> dirs w\<rparr>"

definition rmtree :: "dir \<Rightarrow> world \<Rightarrow> world" where
  "rmtree d w = w\<lparr>dirs := dirs w - {d},
                  fs := (\<lambda>p. if fst p = d then None else fs w p)\<rparr>"

section \<open>Step 2: article text\<close>

definition fetch_article_text :: "env \<Rightarrow> ustr \<Rightarrow> ustr option" where
  "fetch_article_text env url =
     (case http_get env url of
        None \<Rightarrow> None
      | Some html \<Rightarrow>
          (case extract_text env html of
             None \<Rightarrow> None
           | Some text \<Rightarrow>
               if text \<noteq> [] \<and> MIN_TEXT_LENGTH \<le> length text then Some text else None))"

section \<open>Step 3: text to audio\<close>

definition text_to_speech :: "env \<Rightarrow> ustr \<Rightarrow> path \<Rightarrow> world \<Rightarrow> bool \<times> world" where
  \<comment> \<open>the flag is \<open>False\<close> when the call raises\<close>
  "text_to_speech env text output_path w =
     (let w1 = w\<lparr>tts_calls := tts_calls w @ [(text, output_path)]\<rparr>
      in case synth env text of
           Synthesized b \<Rightarrow> (True, w1\<lparr>fs := (fs w1)(output_path \<mapsto> b)\<rparr>)
         | SynthesisFailed None \<Rightarrow> (False, w1)
         | SynthesisFailed (Some b) \<Rightarrow> (False, w1\<lparr>fs := (fs w1)(output_path \<mapsto> b)\<rparr>))"

definition make_chapter_intro :: "nat \<Rightarrow> ustr \<Rightarrow> ustr \<Rightarrow> ustr" where
  "make_chapter_intro index title blurb =
     (let intro = u ''Chapter '' @ str_nat index @ u ''. '' @ title @ u ''.''
      in if blurb \<noteq> [] \<and> blurb \<noteq> title
         then intro @ u '' '' @ shorten blurb 300 ellipsis
         else intro)"

text \<open>
  The text \<open>run_pipeline\<close> builds for the speech service from an article and its
  extracted body (lines 281 to 285).
\<close>

definition full_text :: "nat \<Rightarrow> article \<Rightarrow> ustr \<Rightarrow> ustr" where
  "full_text i a body_text =
     shorten (make_chapter_intro i (a_title a) (a_blurb a) @ [10, 10] @ body_text)
       8000 END_MARKER"

definition chapter_path :: "nat \<Rightarrow> path" where
  "chapter_path i = (TmpDir, u ''chapter_'' @ pad2 i @ u ''.mp3'')"

section \<open>Step 4: assembling the episode\<close>

definition silent :: "nat \<Rightarrow> segment" where
  "silent d = replicate d 0"

definition from_mp3 :: "env \<Rightarrow> world \<Rightarrow> path \<Rightarrow> error + segment" where
  "from_mp3 env w p =
     (case fs w p of
        None \<Rightarrow> Inl FileNotFoundError
      | Some b \<Rightarrow>
          (case decode_mp3 env b of
             None \<Rightarrow> Inl CouldntDecodeError
           | Some seg \<Rightarrow> Inr seg))"

text \<open>
  The loop of \<open>assemble_episode\<close> over \<open>enumerate(chapter_paths)\<close>; \<open>n\<close> is
  \<open>len(chapter_paths)\<close>.
\<close>

fun assemble_loop :: "env \<Rightarrow> world \<Rightarrow> nat \<Rightarrow> nat \<Rightarrow> path list \<Rightarrow> segment \<Rightarrow> error + segment" where
  "assemble_loop env w n i [] combined = Inr combined"
| "assemble_loop env w n i (p # ps) combined =
     (case from_mp3 env w p of
        Inl e \<Rightarrow> Inl e
      | Inr seg \<Rightarrow>
          assemble_loop env w n (Suc i) ps
            (if int i < int n - 1
             then (combined @ seg) @ silent SILENCE_BETWEEN_CHAPTERS_MS
             else combined @ seg))"

definition rfind :: "nat \<Rightarrow> ustr \<Rightarrow> nat option" where
  "rfind c s =
     (if c \<in> set s then Some (length s - 1 - length (takeWhile (\<lambda>x. x \<noteq> c) (rev s)))
      else None)"

definition stem :: "ustr \<Rightarrow> ustr" where
  \<comment> \<open>\<open>Path.stem\<close>: the name without its last suffix\<close>
  "stem name =
     (case rfind 46 name of
        None \<Rightarrow> name
      | Some i \<Rightarrow> if 0 < i \<and> i < length name - 1 then take i name else name)"

text \<open>
  \<open>combined.export(path, format="mp3", bitrate="64k", tags=...)\<close>: the destination is
  opened for writing before the encoder runs, so a failing encoder leaves it empty.
\<close>

definition export :: "env \<Rightarrow> world \<Rightarrow> segment \<Rightarrow> path \<Rightarrow> error option \<times> world" where
  "export env w seg out =
     (if fst out \<notin> dirs w then (Some FileNotFoundError, w)
      else case encode_mp3 env seg (stem (snd out)) of
             None \<Rightarrow> (Some CouldntEncodeError, w\<lparr>fs := (fs w)(out \<mapsto> [])\<rparr>)
           | Some b \<Rightarrow> (None, w\<lparr>fs := (fs w)(out \<mapsto> b)\<rparr>))"

definition assemble_episode :: "env \<Rightarrow> world \<Rightarrow> path list \<Rightarrow> path \<Rightarrow> error option \<times> world" where
  "assemble_episode env w chapter_paths output_path =
     (case assemble_loop env w (length chapter_paths) 0 chapter_paths [] of
        Inl e \<Rightarrow> (Some e, w)
      | Inr combined \<Rightarrow> export env w combined output_path)"

section \<open>Step 5: feed state and feed document\<close>

definition load_state :: "world \<Rightarrow> error + episode list" where
  "load_state w =
     (case state_file w of
        None \<Rightarrow> Inr []
      | Some Incomplete \<Rightarrow> Inl JSONDecodeError
      | Some (Doc eps) \<Rightarrow> Inr eps)"

text \<open>
  \<open>save_state\<close> is \<open>STATE_FILE.write_text(json.dumps(state, indent=2))\<close>, and
  \<open>Path.write_text\<close> is \<open>with self.open(mode='w') as f: f.write(data)\<close>: the file is
  opened for writing, which truncates it, then the text is written and the file closed.
  \<open>save_state_steps\<close> lists the worlds after each of the two file operations; a run
  that is cut off inside \<open>save_state\<close> leaves the world of the first.
\<close>

definition open_truncate :: "world \<Rightarrow> world" where
  "open_truncate w = w\<lparr>state_file := Some Incomplete\<rparr>"

definition write_close :: "episode list \<Rightarrow> world \<Rightarrow> world" where
  "write_close eps w = w\<lparr>state_file := Some (Doc eps)\<rparr>"

definition save_state :: "episode list \<Rightarrow> world \<Rightarrow> world" where
  "save_state eps w = write_close eps (open_truncate w)"

definition save_state_steps :: "episode list \<Rightarrow> world \<Rightarrow> world list" where
  "save_state_steps eps w = [open_truncate w, write_close eps (open_truncate w)]"

definition keep_last :: "nat \<Rightarrow> 'a list \<Rightarrow> 'a list" where
  \<comment> \<open>the slice \<open>xs[-n:]\<close> for \<open>n > 0\<close>\<close>
  "keep_last n xs = drop (length xs - n) xs"

definition append_episode :: "episode list \<Rightarrow> episode \<Rightarrow> episode list" where
  \<comment> \<open>lines 328 and 329 of \<open>run_pipeline\<close>\<close>
  "append_episode eps e = keep_last 30 (eps @ [e])"

definition xml :: "ustr \<Rightarrow> ustr" where
  \<comment> \<open>\<open>_xml\<close>\<close>
  "xml s = replace 34 (u ''&quot;'') (replace 62 (u ''&gt;'')
             (replace 60 (u ''&lt;'') (replace 38 (u ''&amp;'') s)))"

definition item_text :: "episode \<Rightarrow> ustr \<Rightarrow> ustr" where
  \<open>item_text ep pd =
     u ''\<newline>    <item>\<newline>      <title>'' @ xml (e_title ep)
     @ u ''</title>\<newline>      <description>'' @ xml (e_description ep)
     @ u ''</description>\<newline>      <enclosure url="'' @ e_audio_url ep
     @ u ''" length="'' @ str_nat (e_file_size ep)
     @ u ''" type="audio/mpeg"/>\<newline>      <guid isPermaLink="false">'' @ e_guid ep
     @ u ''</guid>\<newline>      <pubDate>'' @ pd
     @ u ''</pubDate>\<newline>      <itunes:duration>'' @ e_duration ep
     @ u ''</itunes:duration>\<newline>      <itunes:explicit>no</itunes:explicit>\<newline>    </item>''\<close>

text \<open>The loop of \<open>generate_rss\<close> over the reversed episode list.\<close>

fun render_items :: "env \<Rightarrow> episode list \<Rightarrow> ustr \<Rightarrow> error + ustr" where
  "render_items env [] items = Inr items"
| "render_items env (ep # eps) items =
     (case format_pub_date env (e_pub_date ep) of
        None \<Rightarrow> Inl ValueError
      | Some pd \<Rightarrow> render_items env eps (items @ item_text ep pd))"

definition rss_head :: ustr where
  \<open>rss_head =
     u ''<?xml version="1.0" encoding="UTF-8"?>\<newline><rss version="2.0"\<newline>''
     @ u ''     xmlns:itunes="http://www.itunes.com/dtds/podcast-1.0.dtd"\<newline>''
     @ u ''     xmlns:content="http://purl.org/rss/1.0/modules/content/">\<newline>''
     @ u ''  <channel>\<newline>    <title>'' @ xml PODCAST_TITLE
     @ u ''</title>\<newline>    <link>https://www.nakedcapitalism.com/</link>\<newline>''
     @ u ''    <description>'' @ xml PODCAST_DESCRIPTION
     @ u ''</description>\<newline>    <language>en-us</language>\<newline>''
     @ u ''    <itunes:author>'' @ xml PODCAST_AUTHOR
     @ u ''</itunes:author>\<newline>    <itunes:owner>\<newline>      <itunes:name>''
     @ xml PODCAST_AUTHOR
     @ u ''</itunes:name>\<newline>      <itunes:email>'' @ xml PODCAST_EMAIL
     @ u ''</itunes:email>\<newline>    </itunes:owner>\<newline>''
     @ u ''    <itunes:category text="News"/>\<newline>''
     @ u ''    <itunes:explicit>no</itunes:explicit>\<newline>    <image>\<newline>      <url>''
     @ GITHUB_PAGES_URL
     @ u ''/cover.jpg</url>\<newline>      <title>'' @ xml PODCAST_TITLE
     @ u ''</title>\<newline>      <link>https://www.nakedcapitalism.com/</link>\<newline>''
     @ u ''    </image>''\<close>

definition rss_tail :: ustr where
  \<open>rss_tail = u ''\<newline>  </channel>\<newline></rss>''\<close>

definition generate_rss :: "env \<Rightarrow> episode list \<Rightarrow> error + ustr" where
  "generate_rss env episodes =
     (case render_items env (rev episodes) [] of
        Inl e \<Rightarrow> Inl e
      | Inr items \<Rightarrow> Inr (rss_head @ items @ rss_tail))"

section \<open>The pipeline\<close>

text \<open>
  The loop of \<open>run_pipeline\<close> over \<open>enumerate(post["articles"], start=1)\<close>. Its state is
  the world, \<open>chapter_paths\<close> and \<open>chapter_titles\<close>.
\<close>

fun process_articles ::
  "env \<Rightarrow> nat \<Rightarrow> article list \<Rightarrow> world \<times> path list \<times> ustr list
     \<Rightarrow> world \<times> path list \<times> ustr list" where
  "process_articles env i [] st = st"
| "process_articles env i (a # as) (w, chapter_paths, chapter_titles) =
     (case fetch_article_text env (a_url a) of
        None \<Rightarrow> process_articles env (Suc i) as (w, chapter_paths, chapter_titles)
      | Some body_text \<Rightarrow>
          (case text_to_speech env (full_text i a body_text) (chapter_path i) w of
             (True, w') \<Rightarrow>
               process_articles env (Suc i) as
                 (w', chapter_paths @ [chapter_path i], chapter_titles @ [a_title a])
           | (False, w') \<Rightarrow>
               process_articles env (Suc i) as (w', chapter_paths, chapter_titles)))"

definition duration_str :: "nat \<Rightarrow> ustr" where
  "duration_str duration_secs =
     pad2 (duration_secs div 3600) @ u '':'' @ pad2 ((duration_secs mod 3600) div 60)
     @ u '':'' @ pad2 (duration_secs mod 60)"

definition episode_description :: "nat \<Rightarrow> ustr list \<Rightarrow> ustr" where
  "episode_description n chapter_titles =
     u ''Daily Links from Naked Capitalism. '' @ str_nat n @ u '' articles: ''
     @ join (u ''; '') (take 5 chapter_titles)
     @ (if 5 < length chapter_titles then ellipsis else [])"

definition episode_id :: "env \<Rightarrow> ustr" where
  "episode_id env = u ''nc-links-'' @ utc_today env"

datatype outcome = NoPost | Skipped | NoChapters | Complete | Raised error

text \<open>The \<open>episode_record\<close> dictionary built in step 4 of \<open>run_pipeline\<close>.\<close>

definition episode_record ::
  "env \<Rightarrow> post \<Rightarrow> path list \<Rightarrow> ustr list \<Rightarrow> bytes \<Rightarrow> segment \<Rightarrow> episode" where
  "episode_record env post chapter_paths chapter_titles b audio =
     \<lparr>e_guid = episode_id env,
      e_title = p_title post,
      e_description = episode_description (length chapter_paths) chapter_titles,
      e_audio_url = GITHUB_PAGES_URL @ u ''/audio/'' @ (episode_id env @ u ''.mp3''),
      e_file_size = length b,
      e_duration = duration_str (length audio div 1000),
      e_pub_date = utc_now_iso env\<rparr>"

text \<open>
  Steps 4 and 5 of \<open>run_pipeline\<close>, after the episode file was written and the
  transient directory removed: the file's size and decoded length, the new state, the
  feed.
\<close>

definition commit_episode ::
  "env \<Rightarrow> post \<Rightarrow> episode list \<Rightarrow> path list \<Rightarrow> ustr list \<Rightarrow> world
     \<Rightarrow> outcome \<times> world" where
  "commit_episode env post state chapter_paths chapter_titles w =
     (case fs w (AudioDir, episode_id env @ u ''.mp3'') of
        None \<Rightarrow> (Raised FileNotFoundError, w)
      | Some b \<Rightarrow>
          (case decode_mp3 env b of
             None \<Rightarrow> (Raised CouldntDecodeError, w)
           | Some audio \<Rightarrow>
               (let episodes = append_episode state
                      (episode_record env post chapter_paths chapter_titles b audio);
                    w1 = mkdir DocsDir (save_state episodes w)
                in case generate_rss env episodes of
                     Inl e \<Rightarrow> (Raised e, w1)
                   | Inr doc \<Rightarrow> (Complete, w1\<lparr>rss_file := Some doc\<rparr>))))"

definition run_pipeline :: "env \<Rightarrow> world \<Rightarrow> outcome \<times> world" where
  "run_pipeline env w0 =
     (let w = mkdir AudioDir w0 in
      case fetch_links_post env of
        ScrapeRaised \<Rightarrow> (Raised ScrapeError, w)
      | NoLinksPost \<Rightarrow> (NoPost, w)
      | LinksPost post \<Rightarrow>
          (case load_state w of
             Inl e \<Rightarrow> (Raised e, w)
           | Inr state \<Rightarrow>
               if list_ex (\<lambda>ep. e_guid ep = episode_id env) state then (Skipped, w)
               else
                 (case process_articles env 1 (p_articles post) (mkdir TmpDir w, [], []) of
                    (w1, chapter_paths, chapter_titles) \<Rightarrow>
                      if chapter_paths = [] then (NoChapters, rmtree TmpDir w1)
                      else
                        (case assemble_episode env w1 chapter_paths
                                (AudioDir, episode_id env @ u ''.mp3'') of
                           (Some e, w2) \<Rightarrow> (Raised e, w2)
                         | (None, w2) \<Rightarrow>
                             commit_episode env post state chapter_paths chapter_titles
                               (rmtree TmpDir w2)))))"

section \<open>Specification-side definitions\<close>

text \<open>
  The assembled audio as the specification words it: the chapters in list order with a
  silence between each two consecutive chapters, first as one segment, then as a layout
  of pieces in which the gaps can be counted.
\<close>

fun with_gaps :: "segment list \<Rightarrow> segment" where
  "with_gaps [] = []"
| "with_gaps [c] = c"
| "with_gaps (c # d # cs) = c @ silent SILENCE_BETWEEN_CHAPTERS_MS @ with_gaps (d # cs)"

datatype piece = Chapter segment | Gap

fun layout :: "segment list \<Rightarrow> piece list" where
  "layout [] = []"
| "layout [c] = [Chapter c]"
| "layout (c # d # cs) = Chapter c # Gap # layout (d # cs)"

fun play :: "piece \<Rightarrow> segment" where
  "play (Chapter s) = s"
| "play Gap = silent SILENCE_BETWEEN_CHAPTERS_MS"

fun chapters_of :: "piece list \<Rightarrow> segment list" where
  "chapters_of [] = []"
| "chapters_of (Chapter s # ps) = s # chapters_of ps"
| "chapters_of (Gap # ps) = chapters_of ps"

text \<open>
  A numbered article survives when its text is extracted and its chapter is synthesised;
  the other articles are skipped.
\<close>

definition survives :: "env \<Rightarrow> nat \<times> article \<Rightarrow> bool" where
  "survives env ia =
     (case fetch_article_text env (a_url (snd ia)) of
        None \<Rightarrow> False
      | Some body_text \<Rightarrow>
          (case synth env (full_text (fst ia) (snd ia) body_text) of
             Synthesized b \<Rightarrow> True
           | SynthesisFailed pb \<Rightarrow> False))"

text \<open>
  The episodes a world's state file holds (none when it cannot be loaded), and the number
  of episodes of a feed state that carry a given guid.
\<close>

definition stored_episodes :: "world \<Rightarrow> episode list" where
  "stored_episodes w = (case load_state w of Inl e \<Rightarrow> [] | Inr eps \<Rightarrow> eps)"

definition guid_count :: "ustr \<Rightarrow> episode list \<Rightarrow> nat" where
  "guid_count g eps = length (filter (\<lambda>ep. e_guid ep = g) eps)"







section \<open>Example inputs\<close>

text \<open>
  A feed state of 30 numbered episodes; an environment in which nothing is found, with a
  codec that decodes every non-empty file; a world with two chapter files; a links post
  of three articles of which the second cannot be fetched (\<open>env1\<close>), none can be
  fetched (\<open>env6\<close>), or whose chapter files do not decode (\<open>env7\<close>); a state that
  holds today's episode; a title with an apostrophe; an episode whose title and description
  hold all four escaped characters; an article body of 224 characters.
\<close>

definition ep_n :: "nat \<Rightarrow> episode" where
  "ep_n n = \<lparr>e_guid = u ''nc-links-'' @ str_nat n, e_title = u ''Links'', e_description = [],
            e_audio_url = [], e_file_size = n, e_duration = u ''00:00:01'', e_pub_date = []\<rparr>"

definition env0 :: env where
  "env0 = \<lparr>fetch_links_post = NoLinksPost, utc_today = u ''2025-02-21'',
           utc_now_iso = u ''2025-02-21T06:00:00+00:00'',
           http_get = (\<lambda>url. None), extract_text = (\<lambda>html. None),
           synth = (\<lambda>text. SynthesisFailed None),
           decode_mp3 = (\<lambda>b. if b = [] then None else Some (map int b)),
           encode_mp3 = (\<lambda>seg t. Some [length seg]),
           format_pub_date = (\<lambda>s. Some s)\<rparr>"

definition w0 :: world where
  "w0 = \<lparr>state_file = None, rss_file = None, dirs = {DocsDir, AudioDir, TmpDir},
          fs = [chapter_path 1 \<mapsto> [1, 2], chapter_path 3 \<mapsto> [3]], tts_calls = []\<rparr>"

definition art :: "nat \<Rightarrow> article" where
  "art k = \<lparr>a_url = u ''https://example.org/'' @ str_nat k, a_title = u ''Title '' @ str_nat k,
            a_blurb = u ''Some commentary''\<rparr>"

definition post3 :: post where
  "post3 = \<lparr>p_title = u ''Links 2/21/2025'', p_url = u ''https://www.nakedcapitalism.com/links'',
             p_articles = [art 1, art 2, art 3]\<rparr>"

definition env1 :: env where
  "env1 = env0\<lparr>fetch_links_post := LinksPost post3,
                http_get := (\<lambda>url. if url = a_url (art 2) then None else Some url),
                extract_text := (\<lambda>html. Some (replicate 200 97)),
                synth := (\<lambda>text. Synthesized [1, 2, 3])\<rparr>"

definition env6 :: env where
  "env6 = env1\<lparr>http_get := (\<lambda>url. None)\<rparr>"

definition env7 :: env where
  "env7 = env1\<lparr>decode_mp3 := (\<lambda>b. None)\<rparr>"

definition ep_today :: episode where
  "ep_today = \<lparr>e_guid = u ''nc-links-2025-02-21'', e_title = u ''Links 2/21/2025'',
                e_description = [], e_audio_url = [], e_file_size = 1,
                e_duration = u ''00:00:01'', e_pub_date = u ''2025-02-21T06:00:00+00:00''\<rparr>"

definition w_done :: world where
  "w_done = w0\<lparr>state_file := Some (Doc [ep_today])\<rparr>"



definition body200 :: ustr where
  "body200 = u ''The quick brown fox jumps over the lazy dog. The quick brown fox jumps over the lazy dog. The quick brown fox jumps over the lazy dog. The quick brown fox jumps over the lazy dog. The quick brown fox jumps over the lazy dog.''"

section \<open>Properties\<close>

subsection \<open>Feed state: bounded retention\<close>

lemma append_episode_eq: "append_episode eps e = drop (length eps - 29) eps @ [e]"
  by (simp add: append_episode_def keep_last_def Suc_diff_le)

text \<open>
  C9. Appending an episode puts it at the end and keeps the last 30 entries: the result is
  the last 29 entries of the old list followed by the new episode, it never has more than
  30 entries, and from a list of 30 entries exactly the first (oldest) one is dropped.
\<close>

theorem append_episode_bounded:
  "append_episode eps e = drop (length eps - 29) eps @ [e]
   \<and> length (append_episode eps e) = min 30 (Suc (length eps))
   \<and> (length eps = 30 \<longrightarrow> append_episode eps e = tl eps @ [e])"
proof -
  have a: "append_episode eps e = drop (length eps - 29) eps @ [e]"
    by (rule append_episode_eq)
  have b: "length (append_episode eps e) = min 30 (Suc (length eps))"
    by (simp add: a)
  have c: "length eps = 30 \<longrightarrow> append_episode eps e = tl eps @ [e]"
    by (simp add: a drop_Suc)
  from a b c show ?thesis by blast
qed

theorem append_episode_bounded_witness:
  "length (map ep_n [0..<30]) = 30
   \<and> append_episode (map ep_n [0..<30]) (ep_n 30) = tl (map ep_n [0..<30]) @ [ep_n 30]"
  using append_episode_bounded [of "map ep_n [0..<30]" "ep_n 30"] by (simp add: drop_Suc)

subsection \<open>Episode assembly\<close>

lemma assemble_loop_with_gaps:
  "map (from_mp3 env w) ps = map Inr segs \<Longrightarrow>
   assemble_loop env w (i + length ps) i ps combined = Inr (combined @ with_gaps segs)"
proof (induction ps arbitrary: i combined segs)
  case Nil
  then show ?case by simp
next
  case (Cons p ps)
  then obtain s ss where segs: "segs = s # ss" and s: "from_mp3 env w p = Inr s"
    and ss: "map (from_mp3 env w) ps = map Inr ss"
    by (cases segs) auto
  have n: "i + length (p # ps) = Suc i + length ps" by simp
  show ?case
  proof (cases ps)
    case Nil
    with ss have "ss = []" by simp
    with Nil s segs show ?thesis by simp
  next
    case (Cons q qs)
    with ss obtain t ts where ts: "ss = t # ts" by (cases ss) auto
    have "assemble_loop env w (Suc i + length ps) (Suc i) ps
            ((combined @ s) @ silent SILENCE_BETWEEN_CHAPTERS_MS)
          = Inr (((combined @ s) @ silent SILENCE_BETWEEN_CHAPTERS_MS) @ with_gaps ss)"
      by (rule Cons.IH [OF ss])
    with Cons s segs ts show ?thesis by simp
  qed
qed

lemma with_gaps_layout: "with_gaps segs = concat (map play (layout segs))"
  by (induction segs rule: layout.induct) simp_all

lemma layout_gaps: "length (filter (\<lambda>p. p = Gap) (layout segs)) = length segs - 1"
  by (induction segs rule: layout.induct) simp_all

lemma layout_chapters: "chapters_of (layout segs) = segs"
  by (induction segs rule: layout.induct) simp_all

lemma layout_hd: "segs \<noteq> [] \<Longrightarrow> hd (layout segs) = Chapter (hd segs)"
  by (induction segs rule: layout.induct) simp_all

lemma layout_Nil: "(layout segs = []) = (segs = [])"
  by (induction segs rule: layout.induct) simp_all

lemma layout_last: "segs \<noteq> [] \<Longrightarrow> last (layout segs) = Chapter (last segs)"
  by (induction segs rule: layout.induct) (simp_all add: layout_Nil)

text \<open>
  C5. For a non-empty list of chapter files that all decode, the audio handed to the
  encoder is the chapters in list order with one silence of 2000 ms between each two
  consecutive chapters: the layout keeps the chapters in order, holds exactly K - 1 gaps
  for K chapters, and starts and ends with a chapter.
\<close>

theorem assemble_episode_silence:
  assumes "chapter_paths \<noteq> []"
    and "map (from_mp3 env w) chapter_paths = map Inr segs"
  shows "assemble_episode env w chapter_paths out
           = export env w (concat (map play (layout segs))) out
         \<and> chapters_of (layout segs) = segs
         \<and> length (filter (\<lambda>p. p = Gap) (layout segs)) = length chapter_paths - 1
         \<and> hd (layout segs) = Chapter (hd segs)
         \<and> last (layout segs) = Chapter (last segs)
         \<and> play Gap = replicate 2000 0"
proof -
  from assms(2) have len: "length segs = length chapter_paths"
    by (metis length_map)
  with assms(1) have ne: "segs \<noteq> []" by auto
  have "assemble_loop env w (0 + length chapter_paths) 0 chapter_paths []
          = Inr ([] @ with_gaps segs)"
    by (rule assemble_loop_with_gaps [OF assms(2)])
  then have "assemble_episode env w chapter_paths out
               = export env w (concat (map play (layout segs))) out"
    by (simp add: assemble_episode_def with_gaps_layout)
  with len ne show ?thesis
    by (simp add: layout_gaps layout_chapters layout_hd layout_last silent_def
        SILENCE_BETWEEN_CHAPTERS_MS_def)
qed

lemma chapter_path_neq: "chapter_path 1 \<noteq> chapter_path 3"
  by (simp add: chapter_path_def pad2_def str_nat.simps)

theorem assemble_episode_silence_witness:
  "[chapter_path 1, chapter_path 3] \<noteq> []
   \<and> map (from_mp3 env0 w0) [chapter_path 1, chapter_path 3] = map Inr [[1, 2], [3]]
   \<and> assemble_episode env0 w0 [chapter_path 1, chapter_path 3] (AudioDir, u ''e.mp3'')
       = export env0 w0 ([1, 2] @ silent SILENCE_BETWEEN_CHAPTERS_MS @ [3]) (AudioDir, u ''e.mp3'')"
proof -
  have m: "map (from_mp3 env0 w0) [chapter_path 1, chapter_path 3] = map Inr [[1, 2], [3]]"
    using chapter_path_neq by (simp add: from_mp3_def env0_def w0_def)
  show ?thesis
    using assemble_episode_silence [OF _ m, of "(AudioDir, u ''e.mp3'')"] m by simp
qed

lemma assemble_loop_fails:
  "list_ex (\<lambda>p. isl (from_mp3 env w p)) ps \<Longrightarrow>
   \<exists>e. assemble_loop env w n i ps combined = Inl e
       \<and> (e = FileNotFoundError \<or> e = CouldntDecodeError)"
proof (induction ps arbitrary: i combined)
  case Nil
  then show ?case by simp
next
  case (Cons p ps)
  show ?case
  proof (cases "from_mp3 env w p")
    case (Inl e)
    then have "e = FileNotFoundError \<or> e = CouldntDecodeError"
      by (auto simp: from_mp3_def split: option.splits)
    with Inl show ?thesis by simp
  next
    case (Inr seg)
    with Cons.prems have "list_ex (\<lambda>p. isl (from_mp3 env w p)) ps" by simp
    from Cons.IH [OF this] Inr show ?thesis by simp
  qed
qed

text \<open>
  C4 (amended). The assembler has no check for an empty list: on zero chapters it exports
  the empty audio segment to the output path. When some input chapter file is missing or
  does not decode, it raises the decoder's error and writes nothing.
\<close>

theorem assemble_episode_failures:
  "assemble_episode env w [] out = export env w [] out
   \<and> (list_ex (\<lambda>p. isl (from_mp3 env w p)) chapter_paths \<longrightarrow>
        (\<exists>e. assemble_episode env w chapter_paths out = (Some e, w)
           \<and> (e = FileNotFoundError \<or> e = CouldntDecodeError)))"
proof -
  have a: "assemble_episode env w [] out = export env w [] out"
    by (simp add: assemble_episode_def)
  have b: "\<exists>e. assemble_episode env w chapter_paths out = (Some e, w)
           \<and> (e = FileNotFoundError \<or> e = CouldntDecodeError)"
    if "list_ex (\<lambda>p. isl (from_mp3 env w p)) chapter_paths"
  proof -
    from assemble_loop_fails [OF that]
    obtain e where "assemble_loop env w (length chapter_paths) 0 chapter_paths [] = Inl e"
      and "e = FileNotFoundError \<or> e = CouldntDecodeError"
      by blast
    then show ?thesis by (simp add: assemble_episode_def)
  qed
  from a b show ?thesis by blast
qed

theorem assemble_episode_failures_witness:
  "list_ex (\<lambda>p. isl (from_mp3 env0 w0 p)) [chapter_path 1, chapter_path 2]
   \<and> assemble_episode env0 w0 [chapter_path 1, chapter_path 2] (AudioDir, u ''e.mp3'')
       = (Some FileNotFoundError, w0)"
proof -
  have m: "list_ex (\<lambda>p. isl (from_mp3 env0 w0 p)) [chapter_path 1, chapter_path 2]"
    by (simp add: from_mp3_def env0_def w0_def chapter_path_def pad2_def str_nat.simps)
  have r: "assemble_episode env0 w0 [chapter_path 1, chapter_path 2] (AudioDir, u ''e.mp3'')
             = (Some FileNotFoundError, w0)"
    by (simp add: assemble_episode_def from_mp3_def env0_def w0_def chapter_path_def
        pad2_def str_nat.simps)
  from assemble_episode_failures [of env0 w0 "(AudioDir, u ''e.mp3'')"
      "[chapter_path 1, chapter_path 2]"] m r
  show ?thesis by simp
qed

text \<open>
  C4, as stated, fails: called with zero chapters the assembler raises nothing and writes
  an output file.
\<close>

theorem assemble_episode_empty_counterexample:
  "assemble_episode env0 w0 [] (AudioDir, u ''e.mp3'')
     = (None, w0\<lparr>fs := (fs w0)((AudioDir, u ''e.mp3'') \<mapsto> [0])\<rparr>)"
  by (simp add: assemble_episode_def export_def env0_def w0_def)

subsection \<open>Feed rendering\<close>




























subsection \<open>The shortened text\<close>

lemma placeholder_fits_call_sites:
  "placeholder_fits 300 ellipsis \<and> placeholder_fits 8000 END_MARKER"
  by (simp add: placeholder_fits_def lstrip_def ellipsis_def END_MARKER_def u_def is_space_def)

lemma split_acc_words:
  "list_all (\<lambda>c. \<not> is_space c) cur \<Longrightarrow>
   list_all (\<lambda>w. w \<noteq> [] \<and> list_all (\<lambda>c. \<not> is_space c) w) (split_acc cur s)"
proof (induction s arbitrary: cur)
  case Nil
  then show ?case by simp
next
  case (Cons a s)
  show ?case
  proof (cases "is_space a")
    case True
    with Cons.IH [of "[]"] Cons.prems show ?thesis by simp
  next
    case False
    with Cons.IH [of "cur @ [a]"] Cons.prems show ?thesis by simp
  qed
qed

lemma hd_join:
  "ws \<noteq> [] \<Longrightarrow> hd ws \<noteq> [] \<Longrightarrow> join sep ws \<noteq> [] \<and> hd (join sep ws) = hd (hd ws)"
  by (induction sep ws rule: join.induct) simp_all

lemma hd_collapse: "collapse s \<noteq> [] \<Longrightarrow> \<not> is_space (hd (collapse s))"
proof -
  assume ne: "collapse s \<noteq> []"
  define ws where "ws = split_ws (strip s)"
  have w: "list_all (\<lambda>w. w \<noteq> [] \<and> list_all (\<lambda>c. \<not> is_space c) w) ws"
    using split_acc_words [of "[]" "strip s"] by (simp add: ws_def split_ws_def)
  from ne have n: "ws \<noteq> []"
    by (auto simp: collapse_def ws_def)
  with w have h: "hd ws \<noteq> [] \<and> \<not> is_space (hd (hd ws))"
    by (cases ws; cases "hd ws") auto
  with hd_join [OF n, of "[32]"] show ?thesis
    by (simp add: collapse_def ws_def)
qed

lemma chunk_acc_hd:
  "cur \<noteq> [] \<Longrightarrow> chunk_acc cur s \<noteq> [] \<and> hd (chunk_acc cur s) \<noteq> []
     \<and> hd (hd (chunk_acc cur s)) = hd cur"
  by (induction s arbitrary: cur) auto

lemma split_chunks_hd:
  "s \<noteq> [] \<Longrightarrow> split_chunks s \<noteq> [] \<and> hd (split_chunks s) \<noteq> []
     \<and> hd (hd (split_chunks s)) = hd s"
  using chunk_acc_hd [of "[hd s]" "tl s"] by (cases s) (simp_all add: split_chunks_def)

lemma take_fitting_hd:
  "cur \<noteq> [] \<Longrightarrow> fst (take_fitting width cur cs) \<noteq> []
     \<and> hd (fst (take_fitting width cur cs)) = hd cur"
  by (induction cs arbitrary: cur) auto

lemma not_all_space_hd: "h \<noteq> [] \<Longrightarrow> \<not> is_space (hd h) \<Longrightarrow> \<not> all_space h"
  by (cases h) (simp_all add: all_space_def)

lemma fill_line_word:
  assumes "h \<noteq> []" and "\<not> is_space (hd h)"
  shows "fst (fill_line (h # cs) width) \<noteq> []"
proof (cases "length h \<le> width")
  case True
  obtain cl1 rest1 where t: "take_fitting width [h] cs = (cl1, rest1)"
    by (cases "take_fitting width [h] cs") auto
  from take_fitting_hd [of "[h]" width cs] t have c1: "cl1 \<noteq> [] \<and> hd cl1 = h"
    by simp
  obtain cl0 rest where hl: "handle_long_word width (cl1, rest1) = (cl0, rest)"
    by (cases "handle_long_word width (cl1, rest1)") auto
  from hl c1 have c0: "cl0 \<noteq> [] \<and> hd cl0 = h"
    by (auto simp: handle_long_word_def Let_def split: list.splits if_splits)
  have "butlast cl0 \<noteq> []" if "all_space (last cl0)"
  proof
    assume "butlast cl0 = []"
    with c0 have "cl0 = [h]"
      by (cases cl0) (auto split: if_splits)
    with that not_all_space_hd [OF assms] show False by simp
  qed
  with c0 True t hl show ?thesis
    by (simp add: fill_line_def)
next
  case False
  then have t: "take_fitting width [] (h # cs) = ([], h # cs)"
    by simp
  define space_left where "space_left = (if width < 1 then 1 else width - length (concat ([]::ustr list)))"
  have sl: "0 < space_left"
    using False assms(1) by (auto simp: space_left_def)
  from False have hl: "handle_long_word width ([], h # cs) = ([take space_left h], drop space_left h # cs)"
    by (simp add: handle_long_word_def space_left_def)
  from sl assms have p: "take space_left h \<noteq> []" and q: "\<not> is_space (hd (take space_left h))"
    by (cases h; cases space_left; auto)+
  have "\<not> all_space (take space_left h)"
    by (rule not_all_space_hd [OF p q])
  with t hl show ?thesis
    by (simp add: fill_line_def)
qed

lemma fill_line_collapse:
  "fst (fill_line (split_chunks (collapse s)) width) = [] \<Longrightarrow> collapse s = []"
proof (rule ccontr)
  assume e: "fst (fill_line (split_chunks (collapse s)) width) = []"
  assume ne: "collapse s \<noteq> []"
  from split_chunks_hd [OF ne] obtain h cs where c: "split_chunks (collapse s) = h # cs"
    and h: "h \<noteq> []" "hd h = hd (collapse s)"
    by (cases "split_chunks (collapse s)") auto
  from hd_collapse [OF ne] h have "\<not> is_space (hd h)" by simp
  from fill_line_word [OF h(1) this, of cs width] e c show False by simp
qed

lemma set_split_acc:
  "set (concat (split_acc cur s)) \<subseteq> set cur \<union> {c \<in> set s. \<not> is_space c}"
proof (induction s arbitrary: cur)
  case Nil
  then show ?case by simp
next
  case (Cons a s)
  show ?case
  proof (cases "is_space a")
    case True
    with Cons.IH [of "[]"] show ?thesis by auto
  next
    case False
    with Cons.IH [of "cur @ [a]"] show ?thesis by auto
  qed
qed

lemma set_join: "set (join sep xs) \<subseteq> set sep \<union> set (concat xs)"
  by (induction sep xs rule: join.induct) auto

lemma set_strip: "set (strip s) \<subseteq> set s"
proof -
  have "set (dropWhile is_space (rev (dropWhile is_space s))) \<subseteq> set (rev (dropWhile is_space s))"
    by (rule set_dropWhileD [THEN subsetI])
  also have "\<dots> \<subseteq> set s"
    using set_dropWhileD [of _ is_space s] by auto
  finally show ?thesis by (simp add: strip_def)
qed

lemma set_collapse: "set (collapse s) \<subseteq> {32} \<union> {c \<in> set s. \<not> is_space c}"
proof -
  have "set (collapse s) \<subseteq> {32} \<union> set (concat (split_ws (strip s)))"
    using set_join [of "[32]" "split_ws (strip s)"] by (simp add: collapse_def)
  also have "\<dots> \<subseteq> {32} \<union> {c \<in> set (strip s). \<not> is_space c}"
    using set_split_acc [of "[]" "strip s"] by (auto simp: split_ws_def)
  also have "\<dots> \<subseteq> {32} \<union> {c \<in> set s. \<not> is_space c}"
    using set_strip [of s] by auto
  finally show ?thesis .
qed

lemma concat_chunk_acc: "concat (chunk_acc cur s) = cur @ s"
  by (induction s arbitrary: cur) auto

lemma concat_split_chunks: "concat (split_chunks text) = text"
  by (simp add: split_chunks_def concat_chunk_acc)

lemma take_fitting_concat:
  "take_fitting width cur cs = (cl, rest) \<Longrightarrow> concat cl @ concat rest = concat cur @ concat cs"
  by (induction cs arbitrary: cur) (auto split: if_splits)

lemma handle_long_word_concat:
  "handle_long_word width (cl, rest) = (cl', rest') \<Longrightarrow>
   concat cl' @ concat rest' = concat cl @ concat rest"
  by (auto simp: handle_long_word_def Let_def split: list.splits if_splits)

lemma set_add_placeholder:
  "set (add_placeholder width placeholder rcs) \<subseteq> set (concat rcs) \<union> set placeholder"
proof (induction rcs)
  case Nil
  show ?case
    using set_dropWhileD [of _ is_space placeholder] by (auto simp: lstrip_def)
next
  case (Cons c rcs)
  then show ?case by auto
qed

lemma set_concat_butlast: "set (concat (butlast xs)) \<subseteq> set (concat xs)"
  by (auto dest: in_set_butlastD)

lemma set_wrap_one_line:
  "set (wrap_one_line chunks width placeholder) \<subseteq> set (concat chunks) \<union> set placeholder"
proof -
  obtain cl1 rest1 where t: "take_fitting width [] chunks = (cl1, rest1)"
    by (cases "take_fitting width [] chunks") auto
  obtain cl0 rest where h: "handle_long_word width (cl1, rest1) = (cl0, rest)"
    by (cases "handle_long_word width (cl1, rest1)") auto
  from take_fitting_concat [OF t] handle_long_word_concat [OF h]
  have "concat cl0 @ concat rest = concat chunks"
    by simp
  then have c0: "set (concat cl0) \<subseteq> set (concat chunks)"
    by (metis Un_upper1 set_append)
  define cur_line where
    "cur_line = (if cl0 \<noteq> [] \<and> all_space (last cl0) then butlast cl0 else cl0)"
  have c1: "set (concat cur_line) \<subseteq> set (concat chunks)"
  proof (cases "cl0 \<noteq> [] \<and> all_space (last cl0)")
    case True
    then have "cur_line = butlast cl0" by (simp add: cur_line_def)
    then show ?thesis
      using order_trans [OF set_concat_butlast c0] by simp
  next
    case False
    then have "cur_line = cl0" by (auto simp: cur_line_def)
    with c0 show ?thesis by simp
  qed
  have w: "wrap_one_line chunks width placeholder =
             (if cur_line = [] then []
              else if (rest = [] \<or> (length rest = 1 \<and> all_space (hd rest)))
                      \<and> length (concat cur_line) \<le> width
              then concat cur_line
              else add_placeholder width placeholder (rev cur_line))"
    by (simp add: wrap_one_line_def fill_line_def t h cur_line_def)
  have "set (add_placeholder width placeholder (rev cur_line))
          \<subseteq> set (concat chunks) \<union> set placeholder"
    using set_add_placeholder [of width placeholder "rev cur_line"] c1 by auto
  with c1 show ?thesis
    unfolding w by auto
qed

lemma set_shorten:
  "set (shorten s width placeholder)
     \<subseteq> {32} \<union> {c \<in> set s. \<not> is_space c} \<union> set placeholder"
  using set_wrap_one_line [of "split_chunks (collapse s)" width placeholder]
    set_collapse [of s]
  by (auto simp: shorten_def concat_split_chunks)

lemma newline_is_space: "is_space 10"
  by (simp add: is_space_def)

lemma newline_not_in_END_MARKER: "10 \<notin> set END_MARKER"
  by (simp add: END_MARKER_def ellipsis_def u_def)

lemma full_text_eval:
  "full_text 1 (art 1) body200 = u ''Chapter 1. Title 1. Some commentary '' @ body200"
  by (simp add: full_text_def make_chapter_intro_def art_def shorten_def collapse_def
      split_ws_def strip_def split_chunks_def wrap_one_line_def fill_line_def
      handle_long_word_def
      all_space_def lstrip_def is_space_def END_MARKER_def ellipsis_def body200_def u_def
      str_nat.simps Let_def)

text \<open>
  C10. The code at the inputs where the claim fails: the text handed to the speech service
  never holds a line break, whatever the article and its body, because
  \<open>textwrap.shorten\<close> collapses every run of whitespace to one space before it
  truncates. For an article with a body of 224 characters the text is the intro, one
  space and the body, where the claim has a blank line between intro and body.
\<close>

theorem full_text_loses_separator:
  "10 \<notin> set (full_text i a body_text)
   \<and> MIN_TEXT_LENGTH \<le> length body200
   \<and> full_text 1 (art 1) body200 = u ''Chapter 1. Title 1. Some commentary '' @ body200"
proof -
  have "10 \<notin> set (full_text i a body_text)"
    using set_shorten [of "make_chapter_intro i (a_title a) (a_blurb a) @ [10, 10] @ body_text"
        8000 END_MARKER] newline_is_space newline_not_in_END_MARKER
    by (auto simp: full_text_def)
  moreover have "MIN_TEXT_LENGTH \<le> length body200"
    by (simp add: MIN_TEXT_LENGTH_def body200_def u_def)
  ultimately show ?thesis
    using full_text_eval by blast
qed

subsection \<open>The article loop\<close>

lemma mkdir_simps [simp]:
  "state_file (mkdir d w) = state_file w" "rss_file (mkdir d w) = rss_file w"
  "fs (mkdir d w) = fs w" "tts_calls (mkdir d w) = tts_calls w"
  "load_state (mkdir d w) = load_state w"
  by (simp_all add: mkdir_def load_state_def)

lemma rmtree_simps [simp]:
  "state_file (rmtree d w) = state_file w" "rss_file (rmtree d w) = rss_file w"
  "tts_calls (rmtree d w) = tts_calls w" "dirs (rmtree d w) = dirs w - {d}"
  "fs (rmtree d w) p = (if fst p = d then None else fs w p)"
  by (simp_all add: rmtree_def)

lemma text_to_speech_world:
  "text_to_speech env text p w = (ok, w') \<Longrightarrow>
   state_file w' = state_file w \<and> rss_file w' = rss_file w \<and> dirs w' = dirs w
   \<and> (\<forall>q. q \<noteq> p \<longrightarrow> fs w' q = fs w q)
   \<and> tts_calls w' = tts_calls w @ [(text, p)]
   \<and> (ok = (case synth env text of Synthesized b \<Rightarrow> True | SynthesisFailed pb \<Rightarrow> False))"
  by (auto simp: text_to_speech_def Let_def split: tts_outcome.splits option.splits)

lemma process_articles_lists:
  "process_articles env i as (w, cps, cts) = (w', cps', cts') \<Longrightarrow>
   cps' = cps @ map (chapter_path \<circ> fst) (filter (survives env) (enumerate i as))
   \<and> cts' = cts @ map (a_title \<circ> snd) (filter (survives env) (enumerate i as))"
proof (induction as arbitrary: i w cps cts)
  case Nil
  then show ?case by simp
next
  case (Cons a as)
  show ?case
  proof (cases "fetch_article_text env (a_url a)")
    case None
    with Cons.prems have "process_articles env (Suc i) as (w, cps, cts) = (w', cps', cts')"
      by simp
    from Cons.IH [OF this] None show ?thesis
      by (simp add: survives_def)
  next
    case (Some body)
    obtain ok w1 where t: "text_to_speech env (full_text i a body) (chapter_path i) w = (ok, w1)"
      by (cases "text_to_speech env (full_text i a body) (chapter_path i) w") auto
    from text_to_speech_world [OF t]
    have ok: "ok = (case synth env (full_text i a body) of Synthesized b \<Rightarrow> True
                     | SynthesisFailed pb \<Rightarrow> False)"
      by simp
    show ?thesis
    proof (cases ok)
      case True
      with Cons.prems Some t
      have "process_articles env (Suc i) as (w1, cps @ [chapter_path i], cts @ [a_title a])
              = (w', cps', cts')"
        by simp
      from Cons.IH [OF this] Some ok True show ?thesis
        by (simp add: survives_def)
    next
      case False
      with Cons.prems Some t
      have "process_articles env (Suc i) as (w1, cps, cts) = (w', cps', cts')"
        by simp
      from Cons.IH [OF this] Some ok False show ?thesis
        by (simp add: survives_def)
    qed
  qed
qed

lemma process_articles_world:
  "process_articles env i as (w, cps, cts) = (w', cps', cts') \<Longrightarrow>
   state_file w' = state_file w \<and> rss_file w' = rss_file w \<and> dirs w' = dirs w
   \<and> (\<forall>q. fst q \<noteq> TmpDir \<longrightarrow> fs w' q = fs w q)"
proof (induction as arbitrary: i w cps cts)
  case Nil
  then show ?case by simp
next
  case (Cons a as)
  show ?case
  proof (cases "fetch_article_text env (a_url a)")
    case None
    with Cons.prems have "process_articles env (Suc i) as (w, cps, cts) = (w', cps', cts')"
      by simp
    from Cons.IH [OF this] show ?thesis .
  next
    case (Some body)
    obtain ok w1 where t: "text_to_speech env (full_text i a body) (chapter_path i) w = (ok, w1)"
      by (cases "text_to_speech env (full_text i a body) (chapter_path i) w") auto
    from text_to_speech_world [OF t]
    have w1: "state_file w1 = state_file w \<and> rss_file w1 = rss_file w \<and> dirs w1 = dirs w
              \<and> (\<forall>q. fst q \<noteq> TmpDir \<longrightarrow> fs w1 q = fs w q)"
      by (auto simp: chapter_path_def)
    from Cons.prems Some t
    obtain cps1 cts1 where "process_articles env (Suc i) as (w1, cps1, cts1) = (w', cps', cts')"
      by (cases ok) auto
    from Cons.IH [OF this] w1 show ?thesis by simp
  qed
qed





subsection \<open>Whole runs of the pipeline\<close>

lemma assemble_episode_world:
  "assemble_episode env w cps out = (r, w') \<Longrightarrow>
   state_file w' = state_file w \<and> rss_file w' = rss_file w \<and> dirs w' = dirs w
   \<and> tts_calls w' = tts_calls w \<and> (\<forall>q. q \<noteq> out \<longrightarrow> fs w' q = fs w q)"
  by (auto simp: assemble_episode_def export_def split: sum.splits option.splits if_splits)

lemma save_state_simps [simp]:
  "state_file (save_state eps w) = Some (Doc eps)" "rss_file (save_state eps w) = rss_file w"
  "dirs (save_state eps w) = dirs w" "fs (save_state eps w) = fs w"
  "tts_calls (save_state eps w) = tts_calls w"
  by (simp_all add: save_state_def write_close_def open_truncate_def)

lemma commit_episode_state:
  "commit_episode env post state cps cts w = (r, w') \<Longrightarrow>
   (r \<noteq> Complete \<and> state_file w' = state_file w)
   \<or> (\<exists>e. e_guid e = episode_id env \<and> state_file w' = Some (Doc (append_episode state e)))"
proof -
  have g: "e_guid (episode_record env post cps cts b audio) = episode_id env" for b audio
    by (simp add: episode_record_def)
  assume "commit_episode env post state cps cts w = (r, w')"
  then show ?thesis
    using g by (fastforce simp: commit_episode_def Let_def split: option.splits sum.splits)
qed

lemma run_pipeline_state:
  "(fst (run_pipeline env w) \<noteq> Complete
      \<and> state_file (snd (run_pipeline env w)) = state_file w)
   \<or> (\<exists>state e. load_state w = Inr state
         \<and> \<not> list_ex (\<lambda>ep. e_guid ep = episode_id env) state
         \<and> e_guid e = episode_id env
         \<and> state_file (snd (run_pipeline env w)) = Some (Doc (append_episode state e)))"
proof (cases "fetch_links_post env")
  case ScrapeRaised
  then show ?thesis by (simp add: run_pipeline_def)
next
  case NoLinksPost
  then show ?thesis by (simp add: run_pipeline_def)
next
  case (LinksPost post)
  show ?thesis
  proof (cases "load_state w")
    case (Inl e)
    with LinksPost show ?thesis
      by (simp add: run_pipeline_def)
  next
    case (Inr state)
    then have l: "load_state (mkdir AudioDir w) = Inr state"
      by simp
    show ?thesis
    proof (cases "list_ex (\<lambda>ep. e_guid ep = episode_id env) state")
      case True
      with LinksPost l show ?thesis by (simp add: run_pipeline_def)
    next
      case False
      obtain w1 cps cts where
        p: "process_articles env 1 (p_articles post) (mkdir TmpDir (mkdir AudioDir w), [], [])
              = (w1, cps, cts)"
        by (cases "process_articles env 1 (p_articles post)
              (mkdir TmpDir (mkdir AudioDir w), [], [])") auto
      from process_articles_world [OF p] have s1: "state_file w1 = state_file w" by simp
      obtain r w2 where
        a: "assemble_episode env w1 cps (AudioDir, episode_id env @ u ''.mp3'') = (r, w2)"
        by (cases "assemble_episode env w1 cps (AudioDir, episode_id env @ u ''.mp3'')") auto
      from assemble_episode_world [OF a] s1 have s2: "state_file w2 = state_file w" by simp
      obtain r3 w3 where
        c: "commit_episode env post state cps cts (rmtree TmpDir w2) = (r3, w3)"
        by (cases "commit_episode env post state cps cts (rmtree TmpDir w2)") auto
      from commit_episode_state [OF c] s2
      have s3: "(r3 \<noteq> Complete \<and> state_file w3 = state_file w)
         \<or> (\<exists>e. e_guid e = episode_id env
               \<and> state_file w3 = Some (Doc (append_episode state e)))"
        by simp
      from LinksPost l Inr False p a c s1 s2 s3 show ?thesis
        by (cases r) (auto simp: run_pipeline_def)
    qed
  qed
qed

lemma guid_count_append_episode:
  "guid_count g (append_episode eps e) \<le> guid_count g eps + (if e_guid e = g then 1 else 0)"
proof -
  have "length (filter P (drop k xs)) \<le> length (filter P xs)" for P k and xs :: "episode list"
    by (metis append_take_drop_id filter_append length_append le_add2)
  then show ?thesis
    by (simp add: append_episode_eq guid_count_def)
qed

lemma guid_count_zero:
  "\<not> list_ex (\<lambda>ep. e_guid ep = g) eps \<Longrightarrow> guid_count g eps = 0"
  by (simp add: guid_count_def list_ex_iff)

lemma stored_episodes_cong:
  "state_file w' = state_file w \<Longrightarrow> stored_episodes w' = stored_episodes w"
  by (simp add: stored_episodes_def load_state_def)

lemma run_pipeline_guid_count:
  "guid_count (episode_id env) (stored_episodes (snd (run_pipeline env w)))
     \<le> max 1 (guid_count (episode_id env) (stored_episodes w))"
proof -
  from run_pipeline_state [of env w] show ?thesis
  proof
    assume "fst (run_pipeline env w) \<noteq> Complete
      \<and> state_file (snd (run_pipeline env w)) = state_file w"
    then show ?thesis
      using stored_episodes_cong [of "snd (run_pipeline env w)" w] by simp
  next
    assume "\<exists>state e. load_state w = Inr state
         \<and> \<not> list_ex (\<lambda>ep. e_guid ep = episode_id env) state
         \<and> e_guid e = episode_id env
         \<and> state_file (snd (run_pipeline env w)) = Some (Doc (append_episode state e))"
    then obtain state e where l: "stored_episodes w = state"
      and z: "guid_count (episode_id env) state = 0"
      and e: "e_guid e = episode_id env"
      and s: "stored_episodes (snd (run_pipeline env w)) = append_episode state e"
      by (auto simp: guid_count_zero stored_episodes_def load_state_def)
    from guid_count_append_episode [of "episode_id env" state e] l z e s
    show ?thesis by simp
  qed
qed

text \<open>
  C1. When the loaded feed state already holds today's guid \<open>nc-links-<date>\<close>, a run
  stops at the dedup check: the world it leaves is the one it found with the public audio
  directory created, so the state file, the feed file and every other file are unchanged,
  the speech service was not called and no episode was appended. A run that completes
  leaves today's guid in the state, so the next run of that day is such a no-op. Two runs
  that resolve to the same date leave at most one episode with that guid in the state
  (when the state held at most one before).
\<close>

theorem dedup_idempotent:
  assumes "utc_today envb = utc_today enva"
  shows "(list_ex (\<lambda>ep. e_guid ep = episode_id enva) (stored_episodes w) \<longrightarrow>
            snd (run_pipeline enva w) = mkdir AudioDir w
            \<and> state_file (snd (run_pipeline enva w)) = state_file w
            \<and> rss_file (snd (run_pipeline enva w)) = rss_file w
            \<and> fs (snd (run_pipeline enva w)) = fs w
            \<and> tts_calls (snd (run_pipeline enva w)) = tts_calls w
            \<and> fst (run_pipeline enva w) \<noteq> Complete)
         \<and> (fst (run_pipeline enva wb) = Complete \<longrightarrow>
              list_ex (\<lambda>ep. e_guid ep = episode_id enva)
                (stored_episodes (snd (run_pipeline enva wb))))
         \<and> guid_count (episode_id enva)
              (stored_episodes (snd (run_pipeline envb (snd (run_pipeline enva w)))))
            \<le> max 1 (guid_count (episode_id enva) (stored_episodes w))"
proof -
  have a: "snd (run_pipeline enva w) = mkdir AudioDir w \<and> fst (run_pipeline enva w) \<noteq> Complete"
    if h: "list_ex (\<lambda>ep. e_guid ep = episode_id enva) (stored_episodes w)"
  proof -
    from h obtain state where "load_state w = Inr state"
      and "list_ex (\<lambda>ep. e_guid ep = episode_id enva) state"
      by (cases "load_state w") (auto simp: stored_episodes_def)
    then show ?thesis
      by (cases "fetch_links_post enva")
        (simp_all add: run_pipeline_def)
  qed
  have b: "list_ex (\<lambda>ep. e_guid ep = episode_id enva)
             (stored_episodes (snd (run_pipeline enva wb)))"
    if "fst (run_pipeline enva wb) = Complete"
  proof -
    from run_pipeline_state [of enva wb] that
    obtain state e where "e_guid e = episode_id enva"
      and "stored_episodes (snd (run_pipeline enva wb)) = append_episode state e"
      by (auto simp: stored_episodes_def load_state_def)
    then show ?thesis by (simp add: append_episode_eq)
  qed
  have g: "episode_id envb = episode_id enva"
    using assms by (simp add: episode_id_def)
  have "guid_count (episode_id enva)
          (stored_episodes (snd (run_pipeline envb (snd (run_pipeline enva w)))))
        \<le> max 1 (guid_count (episode_id enva) (stored_episodes (snd (run_pipeline enva w))))"
    using run_pipeline_guid_count [of envb "snd (run_pipeline enva w)"] g by simp
  also have "\<dots> \<le> max 1 (max 1 (guid_count (episode_id enva) (stored_episodes w)))"
    using run_pipeline_guid_count [of enva w] by simp
  finally have c: "guid_count (episode_id enva)
          (stored_episodes (snd (run_pipeline envb (snd (run_pipeline enva w)))))
        \<le> max 1 (guid_count (episode_id enva) (stored_episodes w))"
    by simp
  from a b c show ?thesis by auto
qed

lemma run_env1:
  "fst (run_pipeline env1 w0) = Complete"
  by (simp add: run_pipeline_def env1_def env0_def w0_def load_state_def post3_def
      fetch_article_text_def art_def MIN_TEXT_LENGTH_def u_def str_nat.simps
      text_to_speech_def chapter_path_def pad2_def mkdir_def rmtree_def
      assemble_episode_def from_mp3_def export_def commit_episode_def episode_id_def
      generate_rss_def Let_def append_episode_def keep_last_def episode_record_def)

theorem dedup_idempotent_witness:
  "utc_today env1 = utc_today env1
   \<and> list_ex (\<lambda>ep. e_guid ep = episode_id env1) (stored_episodes w_done)
   \<and> snd (run_pipeline env1 w_done) = mkdir AudioDir w_done
   \<and> fst (run_pipeline env1 w0) = Complete
   \<and> list_ex (\<lambda>ep. e_guid ep = episode_id env1) (stored_episodes (snd (run_pipeline env1 w0)))
   \<and> guid_count (episode_id env1)
        (stored_episodes (snd (run_pipeline env1 (snd (run_pipeline env1 w_done))))) \<le> 1"
proof -
  have s: "stored_episodes w_done = [ep_today]"
    by (simp add: stored_episodes_def w_done_def load_state_def)
  have i: "e_guid ep_today = episode_id env1"
    by (simp add: ep_today_def episode_id_def env1_def env0_def u_def)
  have h: "list_ex (\<lambda>ep. e_guid ep = episode_id env1) (stored_episodes w_done)"
    by (simp add: s i)
  have c: "guid_count (episode_id env1) (stored_episodes w_done) = 1"
    by (simp add: guid_count_def s i)
  note t = dedup_idempotent [of env1 env1 w_done w0, OF refl]
  from t h have a: "snd (run_pipeline env1 w_done) = mkdir AudioDir w_done"
    by blast
  from t run_env1
  have b: "list_ex (\<lambda>ep. e_guid ep = episode_id env1)
             (stored_episodes (snd (run_pipeline env1 w0)))"
    by blast
  from t have "guid_count (episode_id env1)
        (stored_episodes (snd (run_pipeline env1 (snd (run_pipeline env1 w_done)))))
      \<le> max 1 (guid_count (episode_id env1) (stored_episodes w_done))"
    by blast
  then have d: "guid_count (episode_id env1)
        (stored_episodes (snd (run_pipeline env1 (snd (run_pipeline env1 w_done))))) \<le> 1"
    by (simp only: c max.idem)
  from h a run_env1 b d show ?thesis
    by blast
qed

text \<open>
  C6. When every article is skipped, the run ends after removing the transient chapter
  directory with all its files: the state file and the feed file are as before the run,
  and no file of the public directories was written or changed.
\<close>

theorem no_chapters_abort:
  assumes "fetch_links_post env = LinksPost post"
    and "load_state w = Inr state"
    and "\<not> list_ex (\<lambda>ep. e_guid ep = episode_id env) state"
    and "filter (survives env) (enumerate 1 (p_articles post)) = []"
  shows "fst (run_pipeline env w) = NoChapters
         \<and> state_file (snd (run_pipeline env w)) = state_file w
         \<and> rss_file (snd (run_pipeline env w)) = rss_file w
         \<and> TmpDir \<notin> dirs (snd (run_pipeline env w))
         \<and> (\<forall>name. fs (snd (run_pipeline env w)) (TmpDir, name) = None)
         \<and> (\<forall>name. fs (snd (run_pipeline env w)) (AudioDir, name) = fs w (AudioDir, name))
         \<and> (\<forall>name. fs (snd (run_pipeline env w)) (DocsDir, name) = fs w (DocsDir, name))"
proof -
  obtain w1 cps cts where
    p: "process_articles env 1 (p_articles post) (mkdir TmpDir (mkdir AudioDir w), [], [])
          = (w1, cps, cts)"
    by (cases "process_articles env 1 (p_articles post) (mkdir TmpDir (mkdir AudioDir w), [], [])")
      auto
  from process_articles_lists [OF p] assms(4) have e: "cps = []" by simp
  from assms(2) have l: "load_state (mkdir AudioDir w) = Inr state"
    by simp
  from assms(1,3) l p e have r: "run_pipeline env w = (NoChapters, rmtree TmpDir w1)"
    by (simp add: run_pipeline_def)
  from process_articles_world [OF p] r show ?thesis by simp
qed

theorem no_chapters_abort_witness:
  "fetch_links_post env6 = LinksPost post3
   \<and> load_state w0 = Inr []
   \<and> \<not> list_ex (\<lambda>ep. e_guid ep = episode_id env6) []
   \<and> filter (survives env6) (enumerate 1 (p_articles post3)) = []
   \<and> fst (run_pipeline env6 w0) = NoChapters
   \<and> rss_file (snd (run_pipeline env6 w0)) = None
   \<and> TmpDir \<notin> dirs (snd (run_pipeline env6 w0))"
proof -
  have a: "fetch_links_post env6 = LinksPost post3"
    by (simp add: env6_def env1_def env0_def)
  have l: "load_state w0 = Inr []"
    by (simp add: load_state_def w0_def)
  have b: "\<not> list_ex (\<lambda>ep. e_guid ep = episode_id env6) []"
    by simp
  have c: "filter (survives env6) (enumerate 1 (p_articles post3)) = []"
    by (simp add: survives_def env6_def env1_def env0_def fetch_article_text_def post3_def)
  have d: "rss_file w0 = None"
    by (simp add: w0_def)
  from no_chapters_abort [OF a l b c] a l b c d show ?thesis
    by simp
qed

text \<open>
  C7. The code at the input where the claim fails: two chapters were synthesised and the
  decoder rejects the first chapter file, so \<open>assemble_episode\<close> raises; the run ends
  with that error while the transient directory and both chapter files still exist.
\<close>

theorem assembly_failure_leaks_tmp:
  "fst (run_pipeline env7 w0) = Raised CouldntDecodeError
   \<and> TmpDir \<in> dirs (snd (run_pipeline env7 w0))
   \<and> fs (snd (run_pipeline env7 w0)) (chapter_path 1) = Some [1, 2, 3]
   \<and> fs (snd (run_pipeline env7 w0)) (chapter_path 3) = Some [1, 2, 3]"
  by (simp add: run_pipeline_def env7_def env1_def env0_def w0_def load_state_def post3_def
      fetch_article_text_def art_def MIN_TEXT_LENGTH_def u_def str_nat.simps
      text_to_speech_def chapter_path_def pad2_def mkdir_def rmtree_def
      assemble_episode_def from_mp3_def Let_def)

subsection \<open>Saving the state\<close>

text \<open>
  C3 (amended). \<open>save_state\<close> overwrites the state file in place. When it returns, the
  file holds the full new state, which \<open>load_state\<close> gives back, and nothing else of the
  world has changed. It is not atomic: the file is truncated before the new text is
  written, so between the two file operations the file is incomplete whatever it held
  before, and cannot be loaded.
\<close>

theorem save_state_overwrites:
  "load_state (save_state eps w) = Inr eps
   \<and> save_state eps w = w\<lparr>state_file := Some (Doc eps)\<rparr>
   \<and> save_state_steps eps w = [w\<lparr>state_file := Some Incomplete\<rparr>, save_state eps w]
   \<and> load_state (hd (save_state_steps eps w)) = Inl JSONDecodeError"
  by (simp add: save_state_steps_def save_state_def write_close_def open_truncate_def
      load_state_def)

text \<open>
  C3, as stated, fails: the state file holds the previously saved state with one episode;
  a run cut off inside the next \<open>save_state\<close>, after its first file operation, leaves a
  state file that holds neither the previous nor the new state and cannot be loaded.
\<close>

theorem save_state_not_atomic_counterexample:
  "load_state w_done = Inr [ep_today]
   \<and> load_state (hd (save_state_steps (append_episode [ep_today] (ep_n 1)) w_done))
       = Inl JSONDecodeError"
  by (simp add: save_state_steps_def open_truncate_def load_state_def w_done_def)

end
